theory Spec2Isabelle
  imports Main "HOL-Library.Word"
begin

section \<open>The segmented download engine of \<^verbatim>\<open>routes/download.py\<close>\<close>

text \<open>
  The development embeds the class \<^verbatim>\<open>DownloadTask\<close> and the routes that drive it.
  Python's unbounded integers are \<open>int\<close>, its strings are \<open>string\<close>, \<^verbatim>\<open>None\<close> is
  \<open>None\<close>. Exceptions are values. The fields \<^verbatim>\<open>progress\<close>, \<^verbatim>\<open>speed\<close> and
  \<^verbatim>\<open>start_time\<close> are computed in floating point from the wall clock; they, and
  \<^verbatim>\<open>id\<close>, \<^verbatim>\<open>title\<close>, \<^verbatim>\<open>download_path\<close>, \<^verbatim>\<open>chunks\<close> and \<^verbatim>\<open>lock\<close>, are read by no operation
  below and are left out of the record.
\<close>

subsection \<open>Data model\<close>

type_synonym byte = "8 word"
type_synonym path = string

text \<open>A chunk is the tuple \<^verbatim>\<open>(start, end)\<close>; \<^verbatim>\<open>end\<close> may be \<^verbatim>\<open>None\<close>.\<close>

type_synonym chunk = "int \<times> int option"

record task =
  url :: string
  filename :: string
  full_path :: path
  status :: string
  total_size :: int
  downloaded_size :: int
  thread :: "nat option"
  paused :: bool
  error_message :: "string option"
  max_connections :: int
  supports_range :: bool

datatype py_error = ZeroDivisionError | ValueError

text \<open>
  \<^verbatim>\<open>__init__\<close>. The caller's \<^verbatim>\<open>filename\<close> and the joined \<^verbatim>\<open>full_path\<close> are taken as
  given (the source derives them with \<^verbatim>\<open>urlparse\<close> and \<^verbatim>\<open>os.path\<close>).
\<close>

definition init_task :: "string \<Rightarrow> string \<Rightarrow> path \<Rightarrow> int \<Rightarrow> task" where
  "init_task u fname fpath maxc =
     \<lparr>url = u, filename = fname, full_path = fpath, status = ''pending'',
      total_size = 0, downloaded_size = 0, thread = None, paused = False,
      error_message = None, max_connections = maxc, supports_range = False\<rparr>"

subsection \<open>\<^verbatim>\<open>_create_chunks\<close>\<close>

text \<open>\<^verbatim>\<open>range(n)\<close> is empty for \<open>n \<le> 0\<close>.\<close>

definition range_py :: "int \<Rightarrow> int list" where
  "range_py n = map int [0..<nat n]"

text \<open>One iteration of the \<^verbatim>\<open>for i in range(self.max_connections)\<close> loop.\<close>

definition chunk_step :: "int \<Rightarrow> int \<Rightarrow> chunk list \<Rightarrow> int \<Rightarrow> chunk list" where
  "chunk_step chunk_size tsize chunks i =
     (let start = i * chunk_size;
          end_pos = min (start + chunk_size - 1) (tsize - 1)
      in if start \<le> end_pos then chunks @ [(start, Some end_pos)] else chunks)"

text \<open>
  \<^verbatim>\<open>//\<close> is floor division, as \<open>div\<close> on \<open>int\<close> is; by zero it raises
  \<^verbatim>\<open>ZeroDivisionError\<close>.
\<close>

definition create_chunks :: "task \<Rightarrow> py_error + chunk list" where
  "create_chunks t =
     (if \<not> supports_range t \<or> total_size t \<le> 0
      then Inr [(0, if total_size t > 0 then Some (total_size t - 1) else None)]
      else if max_connections t = 0 then Inl ZeroDivisionError
      else let chunk_size = max (total_size t div max_connections t) (1024 * 1024)
           in Inr (foldl (chunk_step chunk_size (total_size t)) []
                     (range_py (max_connections t))))"

text \<open>Byte offset \<open>b\<close> lies in a chunk; a chunk without an end runs to the end of the stream.\<close>

definition in_chunk :: "int \<Rightarrow> chunk \<Rightarrow> bool" where
  "in_chunk b c = (fst c \<le> b \<and> (case snd c of None \<Rightarrow> True | Some e \<Rightarrow> b \<le> e))"

definition covered :: "chunk list \<Rightarrow> int \<Rightarrow> bool" where
  "covered chunks b = list_ex (in_chunk b) chunks"

text \<open>The last byte of a bounded chunk is before the first byte of a later one.\<close>

definition chunk_before :: "chunk \<Rightarrow> chunk \<Rightarrow> bool" where
  "chunk_before c d = (case snd c of None \<Rightarrow> False | Some e \<Rightarrow> fst c \<le> e \<and> e < fst d)"

subsection \<open>Files and the network\<close>

text \<open>
  The file system maps a path to its content. The operating system may refuse a call:
  \<open>faults fs call p = Some d\<close> says that this call on \<open>p\<close> raises \<^verbatim>\<open>OSError\<close> whose text
  is \<open>d\<close>. Writes are unbuffered.
\<close>

datatype os_call = Open | Read | Write | Close | Remove

record fsys =
  files :: "path \<rightharpoonup> byte list"
  faults :: "os_call \<Rightarrow> path \<rightharpoonup> string"

definition os_path_exists :: "fsys \<Rightarrow> path \<Rightarrow> bool" where
  "os_path_exists fs p = (files fs p \<noteq> None)"

definition read_file :: "fsys \<Rightarrow> path \<Rightarrow> byte list" where
  "read_file fs p = (case files fs p of None \<Rightarrow> [] | Some content \<Rightarrow> content)"

text \<open>\<^verbatim>\<open>open(p, 'wb')\<close> creates or truncates; \<^verbatim>\<open>open(p, 'ab')\<close> creates or keeps.\<close>

definition open_wb :: "fsys \<Rightarrow> path \<Rightarrow> fsys" where
  "open_wb fs p = fs\<lparr>files := (files fs)(p \<mapsto> [])\<rparr>"


text \<open>
  \<^verbatim>\<open>file.write\<close> goes through the handle of the open file: the file grows. When the path
  has been removed since the file was opened, the bytes go to a file that no path names,
  and the path stays absent.
\<close>

definition file_write :: "fsys \<Rightarrow> path \<Rightarrow> byte list \<Rightarrow> fsys" where
  "file_write fs p bs =
     (case files fs p of
        None \<Rightarrow> fs
      | Some content \<Rightarrow> fs\<lparr>files := (files fs)(p \<mapsto> content @ bs)\<rparr>)"

definition os_remove :: "fsys \<Rightarrow> path \<Rightarrow> fsys" where
  "os_remove fs p = fs\<lparr>files := (files fs)(p := None)\<rparr>"

text \<open>
  Leaving a \<^verbatim>\<open>with open(p, ...)\<close> block closes the file, with or without an exception in
  flight; when closing fails, its exception is the one that goes on.
\<close>

definition leave_with :: "fsys \<Rightarrow> path \<Rightarrow> string option \<Rightarrow> string option" where
  "leave_with fs p exc = (case faults fs Close p of Some d \<Rightarrow> Some d | None \<Rightarrow> exc)"

text \<open>
  What a streamed response body yields: a block of bytes from \<^verbatim>\<open>iter_content\<close>, or a
  network failure raised by the iterator.
\<close>

datatype event = Data "byte list" | StreamError string

text \<open>
  The outcome of \<^verbatim>\<open>requests.get\<close>: an exception with its text, or a response with its
  status code, the text of the \<^verbatim>\<open>HTTPError\<close> that \<^verbatim>\<open>raise_for_status\<close> raises for it
  (codes 400 to 599), and its body.
\<close>

datatype http_result = RequestError string | Response nat string "event list"

text \<open>
  A request is identified by its \<^verbatim>\<open>Range\<close> header, \<open>None\<close> when it has none. The server
  answers the \<open>k\<close>-th request for \<open>r\<close> (counting from 0) with \<open>net r k\<close>, and \<open>requests r\<close>
  counts the requests issued for \<open>r\<close> so far.
\<close>

type_synonym request = "chunk option"

record sys =
  disk :: fsys
  net :: "request \<Rightarrow> nat \<Rightarrow> http_result"
  requests :: "request \<Rightarrow> nat"

definition send_request :: "request \<Rightarrow> sys \<Rightarrow> http_result \<times> sys" where
  "send_request r s = (net s r (requests s r), s\<lparr>requests := (requests s)(r := Suc (requests s r))\<rparr>)"

subsection \<open>\<^verbatim>\<open>_combine_chunks\<close>\<close>

text \<open>
  The loop over \<^verbatim>\<open>temp_files\<close>, writing to the open final file \<open>out\<close>. It stops at the
  first exception and returns its text.
\<close>

fun combine_loop :: "path \<Rightarrow> path list \<Rightarrow> fsys \<Rightarrow> string option \<times> fsys" where
  "combine_loop out [] fs = (None, fs)"
| "combine_loop out (temp_file # rest) fs =
     (if os_path_exists fs temp_file
      then (case faults fs Open temp_file of
              Some d \<Rightarrow> (Some d, fs)
            | None \<Rightarrow>
                (case faults fs Read temp_file of
                   Some d \<Rightarrow> (leave_with fs temp_file (Some d), fs)
                 | None \<Rightarrow>
                     (case faults fs Write out of
                        Some d \<Rightarrow> (leave_with fs temp_file (Some d), fs)
                      | None \<Rightarrow>
                          (case leave_with fs temp_file None of
                             Some d \<Rightarrow> (Some d, file_write fs out (read_file fs temp_file))
                           | None \<Rightarrow>
                               (case faults fs Remove temp_file of
                                  Some d \<Rightarrow> (Some d, file_write fs out (read_file fs temp_file))
                                | None \<Rightarrow>
                                    combine_loop out rest
                                      (os_remove (file_write fs out (read_file fs temp_file))
                                         temp_file))))))
      else combine_loop out rest fs)"

definition combine_failed :: "task \<Rightarrow> string \<Rightarrow> task" where
  "combine_failed t d =
     t\<lparr>status := ''error'', error_message := Some (''Failed to combine chunks: '' @ d)\<rparr>"

definition combine_chunks :: "task \<Rightarrow> path list \<Rightarrow> fsys \<Rightarrow> task \<times> fsys" where
  "combine_chunks t temp_files fs =
     (case faults fs Open (full_path t) of
        Some d \<Rightarrow> (combine_failed t d, fs)
      | None \<Rightarrow>
          (case combine_loop (full_path t) temp_files (open_wb fs (full_path t)) of
             (exc, fs') \<Rightarrow>
               (case leave_with fs' (full_path t) exc of
                  None \<Rightarrow> (t, fs')
                | Some d \<Rightarrow> (combine_failed t d, fs'))))"

text \<open>\<^verbatim>\<open>str\<close> of a non-negative integer.\<close>

function str_nat :: "nat \<Rightarrow> string" where
  "str_nat n = (if n < 10 then [''0123456789'' ! n]
                else str_nat (n div 10) @ [''0123456789'' ! (n mod 10)])"
  by pat_completeness auto
termination
  by (relation "measure (\<lambda>n. n)") auto

declare str_nat.simps [simp del]

definition chunk_failed :: "nat \<Rightarrow> string \<Rightarrow> string" where
  "chunk_failed chunk_id d = ''Failed to download chunk '' @ str_nat chunk_id @ '': '' @ d"

subsection \<open>The jobs of \<^verbatim>\<open>_multipart_download\<close>\<close>

definition temp_file_name :: "task \<Rightarrow> nat \<Rightarrow> path" where
  "temp_file_name t i = full_path t @ ''.part'' @ str_nat i"

definition temp_files_of :: "task \<Rightarrow> chunk list \<Rightarrow> path list" where
  "temp_files_of t chunks = map (\<lambda>(i, c). temp_file_name t i) (enumerate 0 chunks)"

text \<open>The arguments of one \<^verbatim>\<open>executor.submit(self._download_chunk, ...)\<close>.\<close>

type_synonym job = "int \<times> int option \<times> path \<times> nat"

definition submitted :: "task \<Rightarrow> chunk list \<Rightarrow> int \<Rightarrow> job list" where
  "submitted t chunks resume_pos =
     map (\<lambda>(i, (start, end_pos)). (start, end_pos, temp_files_of t chunks ! i, i))
       (filter (\<lambda>(i, (start, end_pos)). resume_pos \<le> start) (enumerate 0 chunks))"

subsection \<open>Pause, resume and the routes\<close>

text \<open>
  Task objects live in a store and are shared by reference: \<^verbatim>\<open>download_tasks\<close> maps an
  identifier to the address of its task, and a worker thread keeps the address of the
  task it was started for. \<open>workers\<close> lists the threads started so far.
\<close>

record world =
  heap :: "nat \<Rightarrow> task"
  download_tasks :: "string \<rightharpoonup> nat"
  workers :: "nat list"
  env :: sys

definition pause :: "task \<Rightarrow> task" where
  "pause t = t\<lparr>paused := True\<rparr>"

text \<open>\<^verbatim>\<open>start_download\<close> creates and starts a thread that will run \<^verbatim>\<open>_download_worker\<close>.\<close>

definition start_download :: "nat \<Rightarrow> world \<Rightarrow> world" where
  "start_download a w =
     w\<lparr>heap := (heap w)(a := (heap w a)\<lparr>thread := Some (length (workers w))\<rparr>),
       workers := workers w @ [a]\<rparr>"

text \<open>
  \<^verbatim>\<open>_download_worker\<close>: both branches of its test on the URL are \<^verbatim>\<open>pass\<close>, so all it
  does is set the status.
\<close>

definition download_worker :: "task \<Rightarrow> task" where
  "download_worker t = t\<lparr>status := ''downloading''\<rparr>"

definition resume :: "nat \<Rightarrow> world \<Rightarrow> world" where
  "resume a w =
     (if status (heap w a) = ''paused''
      then start_download a (w\<lparr>heap := (heap w)(a := (heap w a)\<lparr>paused := False\<rparr>)\<rparr>)
      else w)"

datatype jval = JStr string | JBool bool

type_synonym response = "(string \<times> jval) list \<times> nat"

definition not_found :: response where
  "not_found = ([(''error'', JStr ''Download not found'')], 404)"


definition resume_download_route :: "string \<Rightarrow> world \<Rightarrow> response \<times> world" where
  "resume_download_route download_id w =
     (case download_tasks w download_id of
        None \<Rightarrow> (not_found, w)
      | Some a \<Rightarrow>
          (([(''status'', JStr ''resumed''), (''success'', JBool True)], 200), resume a w))"

definition cancel_download_route :: "string \<Rightarrow> world \<Rightarrow> response \<times> world" where
  "cancel_download_route download_id w =
     (case download_tasks w download_id of
        None \<Rightarrow> (not_found, w)
      | Some a \<Rightarrow>
          (([(''status'', JStr ''cancelled''), (''success'', JBool True)], 200),
           w\<lparr>heap := (heap w)(a := pause (heap w a)),
             download_tasks := (download_tasks w)(download_id := None)\<rparr>))"

subsection \<open>\<^verbatim>\<open>_download_chunk\<close>, step by step\<close>

text \<open>
  Fetchers run on threads of their own, so a call of \<^verbatim>\<open>_download_chunk\<close> is followed
  step by step. \<open>Queued\<close>: submitted and not yet started. \<open>Streaming body\<close>: the sink is
  open and the loop waits for the next block of \<open>body\<close>. \<open>Writing block body\<close>: the block
  has passed the test of the pause flag and is about to be written. \<open>Finished exc\<close>: the
  call has returned, or has raised the exception whose text is \<open>exc\<close>.
\<close>

datatype fetch_state =
  Queued | Streaming "event list" | Writing "byte list" "event list" | Finished "string option"

definition is_finished :: "fetch_state \<Rightarrow> bool" where
  "is_finished f = (case f of Finished exc \<Rightarrow> True | _ \<Rightarrow> False)"

definition job_range :: "job \<Rightarrow> chunk" where
  "job_range j = (case j of (start, end_pos, temp_file, chunk_id) \<Rightarrow> (start, end_pos))"

definition job_sink :: "job \<Rightarrow> path" where
  "job_sink j = (case j of (start, end_pos, temp_file, chunk_id) \<Rightarrow> temp_file)"

definition job_id :: "job \<Rightarrow> nat" where
  "job_id j = (case j of (start, end_pos, temp_file, chunk_id) \<Rightarrow> chunk_id)"

text \<open>
  Leaving the \<^verbatim>\<open>with\<close> block and the \<^verbatim>\<open>try\<close>: the sink is closed, and whatever exception
  is in flight is wrapped and raised again. Nothing is attempted a second time.
\<close>

definition chunk_ends :: "job \<Rightarrow> fsys \<Rightarrow> string option \<Rightarrow> fetch_state" where
  "chunk_ends j fs exc =
     Finished (map_option (chunk_failed (job_id j)) (leave_with fs (job_sink j) exc))"

text \<open>
  The first step sends the request, tests the status and opens the sink, which truncates
  it; the pause flag is first read when a block arrives.
\<close>

fun download_chunk_step :: "job \<Rightarrow> fetch_state \<Rightarrow> task \<times> sys \<Rightarrow> fetch_state \<times> task \<times> sys" where
  "download_chunk_step j Queued (t, s) =
     (case send_request (Some (job_range j)) s of
        (RequestError d, s1) \<Rightarrow> (Finished (Some (chunk_failed (job_id j) d)), t, s1)
      | (Response code http_error body, s1) \<Rightarrow>
          if 400 \<le> code \<and> code < 600
          then (Finished (Some (chunk_failed (job_id j) http_error)), t, s1)
          else (case faults (disk s1) Open (job_sink j) of
                  Some d \<Rightarrow> (Finished (Some (chunk_failed (job_id j) d)), t, s1)
                | None \<Rightarrow> (Streaming body, t, s1\<lparr>disk := open_wb (disk s1) (job_sink j)\<rparr>)))"
| "download_chunk_step j (Streaming []) (t, s) = (chunk_ends j (disk s) None, t, s)"
| "download_chunk_step j (Streaming (StreamError d # body)) (t, s) =
     (chunk_ends j (disk s) (Some d), t, s)"
| "download_chunk_step j (Streaming (Data block # body)) (t, s) =
     (if paused t then (chunk_ends j (disk s) None, t, s)
      else if block \<noteq> [] then (Writing block body, t, s)
      else (Streaming body, t, s))"
| "download_chunk_step j (Writing block body) (t, s) =
     (case faults (disk s) Write (job_sink j) of
        Some d \<Rightarrow> (chunk_ends j (disk s) (Some d), t, s)
      | None \<Rightarrow>
          (Streaming body,
           t\<lparr>downloaded_size := downloaded_size t + int (length block)\<rparr>,
           s\<lparr>disk := file_write (disk s) (job_sink j) block\<rparr>))"
| "download_chunk_step j (Finished exc) (t, s) = (Finished exc, t, s)"

subsection \<open>\<^verbatim>\<open>_multipart_download\<close>\<close>

text \<open>
  The state of one call: the task and its surroundings, the submitted jobs and the sink
  names, the state of every future, the futures in the order in which they completed,
  the number of futures that the waiting loop has taken from \<^verbatim>\<open>as_completed\<close>, and
  where the calling thread stands: in the loop, past it (waiting, when it leaves the
  \<^verbatim>\<open>with\<close> block, for every job to end), or returned.
\<close>

datatype loop_exit = Exhausted | Break | Return

datatype main_state = InLoop | Left loop_exit | Returned loop_exit

record pool =
  ptask :: task
  psys :: sys
  jobs :: "job list"
  sinks :: "path list"
  futures :: "fetch_state list"
  completed :: "nat list"
  handled :: nat
  main :: main_state

definition loop_failure :: "string \<Rightarrow> string" where
  "loop_failure msg = ''Chunk download failed: '' @ msg"

definition chunk_download_failed :: "task \<Rightarrow> string \<Rightarrow> task" where
  "chunk_download_failed t msg = t\<lparr>status := ''error'', error_message := Some (loop_failure msg)\<rparr>"

text \<open>
  The executor has \<^verbatim>\<open>max_connections\<close> threads, which take the jobs in the order of
  submission: a queued job starts when a thread is free and no earlier job is queued.
\<close>

definition running :: "fetch_state list \<Rightarrow> nat" where
  "running fs = length (filter (\<lambda>f. f \<noteq> Queued \<and> \<not> is_finished f) fs)"

definition may_start :: "nat \<Rightarrow> pool \<Rightarrow> bool" where
  "may_start i c =
     (running (futures c) < nat (max_connections (ptask c))
      \<and> list_all (\<lambda>f. f \<noteq> Queued) (take i (futures c)))"

text \<open>One step of the thread that runs job \<open>i\<close>.\<close>

definition worker :: "nat \<Rightarrow> pool \<Rightarrow> pool" where
  "worker i c =
     (if i < length (futures c) \<and> i < length (jobs c)
      then if is_finished (futures c ! i) \<or> (futures c ! i = Queued \<and> \<not> may_start i c) then c
           else (case download_chunk_step (jobs c ! i) (futures c ! i) (ptask c, psys c) of
                   (f', t', s') \<Rightarrow>
                     c\<lparr>ptask := t', psys := s', futures := (futures c)[i := f'],
                       completed := (if is_finished f' then completed c @ [i] else completed c)\<rparr>)
      else c)"

text \<open>
  One step of the calling thread. In the loop it takes the next completed future, if
  there is one: with the pause flag set it breaks; a future that raised puts the task in
  the error state and the method returns; otherwise the loop goes on, and ends when every
  future has been taken. Past the loop it waits until every job has ended and then, unless
  it is returning, paused or in error, combines the sinks.
\<close>

definition main_thread :: "pool \<Rightarrow> pool" where
  "main_thread c =
     (case main c of
        InLoop \<Rightarrow>
          if handled c < length (completed c)
          then if paused (ptask c) then c\<lparr>main := Left Break\<rparr>
               else (case futures c ! (completed c ! handled c) of
                       Finished (Some msg) \<Rightarrow>
                         c\<lparr>ptask := chunk_download_failed (ptask c) msg, main := Left Return\<rparr>
                     | _ \<Rightarrow> c\<lparr>handled := Suc (handled c)\<rparr>)
          else if handled c = length (futures c) then c\<lparr>main := Left Exhausted\<rparr>
          else c
      | Left ex \<Rightarrow>
          if list_all is_finished (futures c)
          then if ex \<noteq> Return \<and> \<not> paused (ptask c) \<and> status (ptask c) \<noteq> ''error''
               then (case combine_chunks (ptask c) (sinks c) (disk (psys c)) of
                       (t', fs') \<Rightarrow>
                         c\<lparr>ptask := t', psys := (psys c)\<lparr>disk := fs'\<rparr>, main := Returned ex\<rparr>)
               else c\<lparr>main := Returned ex\<rparr>
          else c
      | Returned ex \<Rightarrow> c)"

text \<open>
  What happens next is the scheduler's choice: a step of a worker thread, a step of the
  calling thread, or a request handler calling \<^verbatim>\<open>pause()\<close> on the task.
\<close>

datatype action = Worker nat | MainThread | PauseRequest

fun step :: "action \<Rightarrow> pool \<Rightarrow> pool" where
  "step (Worker i) c = worker i c"
| "step MainThread c = main_thread c"
| "step PauseRequest c = c\<lparr>ptask := pause (ptask c)\<rparr>"

definition run :: "action list \<Rightarrow> pool \<Rightarrow> pool" where
  "run sched c = foldl (\<lambda>c a. step a c) c sched"

definition start_pool :: "chunk list \<Rightarrow> int \<Rightarrow> task \<times> sys \<Rightarrow> pool" where
  "start_pool chunks resume_pos ts =
     (case ts of (t, s) \<Rightarrow>
        \<lparr>ptask = t, psys = s, jobs = submitted t chunks resume_pos,
         sinks = temp_files_of t chunks,
         futures = map (\<lambda>j. Queued) (submitted t chunks resume_pos),
         completed = [], handled = 0, main = InLoop\<rparr>)"

text \<open>
  \<^verbatim>\<open>ThreadPoolExecutor(max_workers=n)\<close> raises \<^verbatim>\<open>ValueError\<close> for \<open>n \<le> 0\<close>; nothing
  catches it here. Otherwise the result is the state that the schedule leads to; the
  call has returned when \<open>main\<close> is \<open>Returned\<close>.
\<close>

definition multipart_download ::
  "chunk list \<Rightarrow> int \<Rightarrow> action list \<Rightarrow> task \<times> sys \<Rightarrow> py_error + pool" where
  "multipart_download chunks resume_pos sched ts =
     (case ts of (t, s) \<Rightarrow>
        if max_connections t \<le> 0 then Inl ValueError
        else Inr (run sched (start_pool chunks resume_pos (t, s))))"



subsection \<open>\<^verbatim>\<open>_single_part_download\<close>, step by step\<close>







subsection \<open>The assembler's order, as the specification words it\<close>

text \<open>
  The sinks in ascending order of the start offset of their chunk (\<open>sort_key\<close> is a
  stable insertion sort).
\<close>

definition sinks_by_offset :: "chunk list \<Rightarrow> path list \<Rightarrow> path list" where
  "sinks_by_offset chunks temp_files = map snd (sort_key fst (zip (map fst chunks) temp_files))"

text \<open>A list of paths with every path kept at its first place only.\<close>

fun listed_once :: "path list \<Rightarrow> path list" where
  "listed_once [] = []"
| "listed_once (p # ps) = p # filter (\<lambda>q. q \<noteq> p) (listed_once ps)"

subsection \<open>Example states\<close>

text \<open>A task that is downloading \<^verbatim>\<open>d/f.bin\<close> over two connections.\<close>

definition example_task :: task where
  "example_task =
     (init_task ''http://h/f.bin'' ''f.bin'' ''d/f.bin'' 2)\<lparr>status := ''downloading''\<rparr>"

text \<open>The same task once the probe has found a range-capable server and a size of 4 bytes.\<close>

definition four_byte_task :: task where
  "four_byte_task = example_task\<lparr>supports_range := True, total_size := 4\<rparr>"

text \<open>
  A disk that holds the first sink of \<open>example_task\<close> and the placeholder of its output,
  on an operating system that refuses nothing.
\<close>

definition example_disk :: fsys where
  "example_disk =
     \<lparr>files = [''d/f.bin'' \<mapsto> [], ''d/f.bin.part0'' \<mapsto> [1, 2, 3]],
      faults = (\<lambda>call. Map.empty)\<rparr>"

text \<open>
  A server whose first answer to any request is a connection failure and whose later
  answers deliver four bytes.
\<close>

definition flaky_net :: "request \<Rightarrow> nat \<Rightarrow> http_result" where
  "flaky_net r k = (if k = 0 then RequestError ''Connection reset by peer''
                    else Response 206 [] [Data [1, 2, 3, 4]])"

text \<open>A server that delivers the four bytes of a request in two blocks.\<close>

definition steady_net :: "request \<Rightarrow> nat \<Rightarrow> http_result" where
  "steady_net r k = Response 206 [] [Data [1, 2], Data [3, 4]]"


text \<open>A server that answers with six bytes, whatever was asked for.\<close>

definition generous_net :: "request \<Rightarrow> nat \<Rightarrow> http_result" where
  "generous_net r k = Response 200 [] [Data [1, 2, 3], Data [4, 5, 6]]"

text \<open>The same task with a size of 2 MiB, which the planner splits in two.\<close>

definition two_chunk_task :: task where
  "two_chunk_task = example_task\<lparr>supports_range := True, total_size := 2097152\<rparr>"

text \<open>
  A server on which the first of these two ranges breaks off after a while and the second
  is refused at once.
\<close>

definition racing_net :: "request \<Rightarrow> nat \<Rightarrow> http_result" where
  "racing_net r k = (if r = Some (0, Some 1048575) then Response 206 [] [StreamError ''slow'']
                     else RequestError ''fast'')"

definition example_world :: world where
  "example_world =
     \<lparr>heap = (\<lambda>a. example_task), download_tasks = [''id1'' \<mapsto> 0], workers = [0],
      env = \<lparr>disk = example_disk, net = flaky_net, requests = (\<lambda>r. 0)\<rparr>\<rparr>"

section \<open>Properties of the planner\<close>

lemma range_py_Suc: "range_py (int (Suc n)) = range_py (int n) @ [int n]"
  by (simp add: range_py_def del: of_nat_Suc)

lemma range_py_nat: "0 \<le> n \<Longrightarrow> range_py n = range_py (int (nat n))"
  by (simp add: range_py_def)

lemma range_py_neg: "n \<le> 0 \<Longrightarrow> range_py n = []"
  by (simp add: range_py_def)

text \<open>
  Loop invariant after \<open>n\<close> iterations: the chunks are in ascending order without
  overlap, and each ends before \<open>n * chunk_size\<close>.
\<close>

lemma chunk_loop_invariant:
  assumes "0 < cs"
  shows "sorted_wrt chunk_before (foldl (chunk_step cs S) [] (range_py (int n)))
         \<and> (\<forall>c \<in> set (foldl (chunk_step cs S) [] (range_py (int n))).
              \<exists>e. snd c = Some e \<and> fst c \<le> e \<and> e < int n * cs)"
proof (induction n)
  case 0
  show ?case by (simp add: range_py_def)
next
  case (Suc n)
  let ?prev = "foldl (chunk_step cs S) [] (range_py (int n))"
  let ?start = "int n * cs"
  let ?end = "min (?start + cs - 1) (S - 1)"
  have step: "foldl (chunk_step cs S) [] (range_py (int (Suc n))) =
              (if ?start \<le> ?end then ?prev @ [(?start, Some ?end)] else ?prev)"
    by (simp add: range_py_Suc chunk_step_def Let_def del: of_nat_Suc)
  have grow: "int n * cs \<le> int (Suc n) * cs"
    using assms by (simp add: distrib_right)
  have new_end: "?end < int (Suc n) * cs"
    using assms by (simp add: distrib_right min_def)
  show ?case
  proof (cases "?start \<le> ?end")
    case False
    with Suc step grow show ?thesis by fastforce
  next
    case True
    have before: "\<forall>c \<in> set ?prev. chunk_before c (?start, Some ?end)"
      using Suc by (auto simp: chunk_before_def)
    have sorted: "sorted_wrt chunk_before (?prev @ [(?start, Some ?end)])"
      using Suc before by (simp add: sorted_wrt_append)
    have bound: "\<forall>c \<in> set (?prev @ [(?start, Some ?end)]).
                   \<exists>e. snd c = Some e \<and> fst c \<le> e \<and> e < int (Suc n) * cs"
      using Suc True new_end grow by fastforce
    from sorted bound step True show ?thesis by simp
  qed
qed

lemma create_chunks_sorted:
  assumes "create_chunks t = Inr chunks"
  shows "sorted_wrt chunk_before chunks"
proof (cases "\<not> supports_range t \<or> total_size t \<le> 0")
  case True
  with assms show ?thesis by (auto simp: create_chunks_def)
next
  case False
  let ?cs = "max (total_size t div max_connections t) (1024 * 1024)"
  have pos: "0 < ?cs" by simp
  from assms False have chunks:
    "chunks = foldl (chunk_step ?cs (total_size t)) [] (range_py (max_connections t))"
    by (auto simp: create_chunks_def Let_def split: if_splits)
  show ?thesis
  proof (cases "0 \<le> max_connections t")
    case True
    then have "range_py (max_connections t) = range_py (int (nat (max_connections t)))"
      by (rule range_py_nat)
    with chunks chunk_loop_invariant [OF pos, of "total_size t" "nat (max_connections t)"]
    show ?thesis by simp
  next
    case False
    then have "range_py (max_connections t) = []" by (simp add: range_py_neg)
    with chunks show ?thesis by simp
  qed
qed

lemma chunk_before_disjoint: "chunk_before c d \<Longrightarrow> \<not> (in_chunk b c \<and> in_chunk b d)"
  by (auto simp: chunk_before_def in_chunk_def split: option.splits)

text \<open>
  C8. For every total size and connection count, the ranges that
  \<^verbatim>\<open>_create_chunks\<close> returns are pairwise non-overlapping: no byte offset lies
  inside two distinct planned ranges.
\<close>

theorem create_chunks_non_overlapping:
  assumes "create_chunks t = Inr chunks"
    and "i < length chunks" and "j < length chunks" and "i \<noteq> j"
  shows "\<not> (in_chunk b (chunks ! i) \<and> in_chunk b (chunks ! j))"
proof -
  have sorted: "sorted_wrt chunk_before chunks"
    using assms(1) by (rule create_chunks_sorted)
  from assms(4) consider "i < j" | "j < i" by linarith
  then show ?thesis
  proof cases
    case 1
    with sorted assms(3) have "chunk_before (chunks ! i) (chunks ! j)"
      by (simp add: sorted_wrt_nth_less)
    then show ?thesis by (rule chunk_before_disjoint)
  next
    case 2
    with sorted assms(2) have "chunk_before (chunks ! j) (chunks ! i)"
      by (simp add: sorted_wrt_nth_less)
    then have "\<not> (in_chunk b (chunks ! j) \<and> in_chunk b (chunks ! i))"
      by (rule chunk_before_disjoint)
    then show ?thesis by blast
  qed
qed

theorem create_chunks_non_overlapping_witness:
  "create_chunks ((init_task ''http://h/f.bin'' ''f.bin'' ''d/f.bin'' 2)
       \<lparr>supports_range := True, total_size := 2097153\<rparr>)
     = Inr [(0, Some 1048575), (1048576, Some 2097151)]
   \<and> \<not> (in_chunk 1048576 ([(0, Some 1048575), (1048576, Some 2097151)] ! 0)
        \<and> in_chunk 1048576 ([(0, Some 1048575), (1048576, Some 2097151)] ! 1))"
proof -
  have planned:
    "create_chunks ((init_task ''http://h/f.bin'' ''f.bin'' ''d/f.bin'' 2)
         \<lparr>supports_range := True, total_size := 2097153\<rparr>)
       = Inr [(0, Some 1048575), (1048576, Some 2097151)]"
    by (simp add: create_chunks_def init_task_def range_py_def chunk_step_def upt_rec)
  from create_chunks_non_overlapping [OF planned, of 0 1 1048576] planned
  show ?thesis by simp
qed

text \<open>
  What the planned chunks cover on a range-capable server: the offsets below
  \<open>max_connections * chunk_size\<close>, which reaches \<open>total_size\<close> only when the division
  leaves no remainder or the chunk size is the 1 MiB minimum.
\<close>

lemma covered_append: "covered (xs @ ys) b = (covered xs b \<or> covered ys b)"
  by (simp add: covered_def list_ex_iff) blast

lemma chunk_loop_coverage:
  assumes "0 < cs"
  shows "covered (foldl (chunk_step cs S) [] (range_py (int n))) b
           = (0 \<le> b \<and> b < min S (int n * cs))"
proof (induction n)
  case 0
  show ?case by (simp add: range_py_def covered_def)
next
  case (Suc n)
  let ?prev = "foldl (chunk_step cs S) [] (range_py (int n))"
  let ?start = "int n * cs"
  let ?end = "min (?start + cs - 1) (S - 1)"
  have step: "foldl (chunk_step cs S) [] (range_py (int (Suc n))) =
              (if ?start \<le> ?end then ?prev @ [(?start, Some ?end)] else ?prev)"
    by (simp add: range_py_Suc chunk_step_def Let_def del: of_nat_Suc)
  have next_start: "int (Suc n) * cs = ?start + cs"
    by (simp add: distrib_right)
  have nonneg: "0 \<le> ?start" using assms by simp
  have gen: "\<And>K. 0 \<le> K \<Longrightarrow> K \<le> min (K + cs - 1) (S - 1) \<Longrightarrow>
               ((0 \<le> b \<and> b < min S K) \<or> (K \<le> b \<and> b \<le> min (K + cs - 1) (S - 1)))
                 = (0 \<le> b \<and> b < min S (K + cs))"
    using assms by auto
  show ?case
  proof (cases "?start \<le> ?end")
    case True
    then have "covered (foldl (chunk_step cs S) [] (range_py (int (Suc n)))) b
                 = (covered ?prev b \<or> (?start \<le> b \<and> b \<le> ?end))"
      unfolding step by (simp add: covered_append) (simp add: covered_def in_chunk_def)
    also have "\<dots> = (0 \<le> b \<and> b < min S (int (Suc n) * cs))"
      unfolding Suc next_start using gen [OF nonneg True] .
    finally show ?thesis .
  next
    case False
    then have "S \<le> ?start" using assms by auto
    then have same: "min S (int (Suc n) * cs) = min S ?start"
      unfolding next_start using assms by auto
    from False have "foldl (chunk_step cs S) [] (range_py (int (Suc n))) = ?prev"
      by (simp only: step if_False)
    then show ?thesis by (simp only: same Suc)
  qed
qed

lemma create_chunks_coverage:
  assumes "supports_range t" and "0 < total_size t" and "0 < max_connections t"
  shows "\<exists>chunks. create_chunks t = Inr chunks \<and>
           (\<forall>b. covered chunks b =
              (0 \<le> b \<and> b < min (total_size t)
                 (max_connections t * max (total_size t div max_connections t) (1024 * 1024))))"
proof -
  let ?cs = "max (total_size t div max_connections t) (1024 * 1024)"
  have pos: "0 < ?cs" by simp
  have "range_py (max_connections t) = range_py (int (nat (max_connections t)))"
    using assms(3) by (intro range_py_nat) simp
  then have "create_chunks t =
          Inr (foldl (chunk_step ?cs (total_size t)) [] (range_py (int (nat (max_connections t)))))"
    using assms by (simp add: create_chunks_def Let_def)
  with chunk_loop_coverage [OF pos, of "total_size t" "nat (max_connections t)"] assms(3)
  show ?thesis by simp
qed

text \<open>
  C1, evaluated where it fails. A resource of 2 MiB + 1 bytes on a range-capable server
  with two connections: \<^verbatim>\<open>chunk_size\<close> is \<open>max (2097153 div 2) 1048576 = 1048576\<close>, the
  two chunks end at byte 2097151, and the last byte, offset 2097152, is in no chunk. The
  final chunk does not absorb the remainder of the division.
\<close>

theorem create_chunks_drops_remainder:
  "create_chunks ((init_task ''http://h/f.bin'' ''f.bin'' ''d/f.bin'' 2)
       \<lparr>supports_range := True, total_size := 2097153\<rparr>)
     = Inr [(0, Some 1048575), (1048576, Some 2097151)]
   \<and> covered [(0, Some 1048575), (1048576, Some 2097151)] 2097152 = False"
  by (simp add: create_chunks_def init_task_def range_py_def chunk_step_def upt_rec
        covered_def in_chunk_def)

theorem create_chunks_drops_remainder_witness:
  "\<exists>chunks. create_chunks ((init_task ''http://h/f.bin'' ''f.bin'' ''d/f.bin'' 2)
                 \<lparr>supports_range := True, total_size := 2097153\<rparr>) = Inr chunks
            \<and> \<not> covered chunks (2097153 - 1)"
  using create_chunks_drops_remainder by simp

text \<open>
  C7, as stated, fails: without range support but with a known size of 100 bytes the one
  segment is \<open>(0, 99)\<close>, bounded, not open-ended.
\<close>

theorem create_chunks_open_end_counterexample:
  "\<not> supports_range ((init_task ''http://h/f.bin'' ''f.bin'' ''d/f.bin'' 4)\<lparr>total_size := 100\<rparr>)
   \<and> create_chunks ((init_task ''http://h/f.bin'' ''f.bin'' ''d/f.bin'' 4)\<lparr>total_size := 100\<rparr>)
       = Inr [(0, Some 99)]
   \<and> create_chunks ((init_task ''http://h/f.bin'' ''f.bin'' ''d/f.bin'' 4)\<lparr>total_size := 100\<rparr>)
       \<noteq> Inr [(0, None)]"
  by (simp add: create_chunks_def init_task_def)

text \<open>
  C7, amended. When the total size is unknown (not positive) or the server does not
  support byte ranges, \<^verbatim>\<open>_create_chunks\<close> returns exactly one segment, starting at
  offset 0 and spanning the whole resource: its end is open (\<^verbatim>\<open>None\<close>) when the size is
  unknown, and the last byte \<open>total_size - 1\<close> when the size is known.
\<close>

theorem create_chunks_single_segment:
  assumes "\<not> supports_range t \<or> total_size t \<le> 0"
  shows "create_chunks t =
           Inr [(0, if 0 < total_size t then Some (total_size t - 1) else None)]"
  using assms by (simp add: create_chunks_def)

theorem create_chunks_single_segment_witness:
  "\<not> supports_range (init_task ''http://h/f.bin'' ''f.bin'' ''d/f.bin'' 4)
   \<and> total_size (init_task ''http://h/f.bin'' ''f.bin'' ''d/f.bin'' 4) = 0
   \<and> create_chunks (init_task ''http://h/f.bin'' ''f.bin'' ''d/f.bin'' 4) = Inr [(0, None)]"
proof -
  have unknown: "\<not> supports_range (init_task ''http://h/f.bin'' ''f.bin'' ''d/f.bin'' 4)
                 \<or> total_size (init_task ''http://h/f.bin'' ''f.bin'' ''d/f.bin'' 4) \<le> 0"
    by (simp add: init_task_def)
  from create_chunks_single_segment [OF unknown]
  show ?thesis by (simp add: init_task_def)
qed

lemma str_nat_nonempty: "str_nat n \<noteq> []"
  by (subst str_nat.simps) simp

lemma digit_inj: "a < 10 \<Longrightarrow> b < 10 \<Longrightarrow> ''0123456789'' ! a = ''0123456789'' ! b \<Longrightarrow> a = b"
  by (simp add: nth_eq_iff_index_eq)

lemma str_nat_inj: "str_nat n = str_nat m \<Longrightarrow> n = m"
proof (induction n arbitrary: m rule: str_nat.induct)
  case (1 n)
  show ?case
  proof (cases "n < 10")
    case True
    show ?thesis
    proof (cases "m < 10")
      case mlt: True
      from "1.prems" True mlt have "''0123456789'' ! n = ''0123456789'' ! m"
        by (simp add: str_nat.simps [of n] str_nat.simps [of m])
      with True mlt show ?thesis by (rule digit_inj)
    next
      case False
      with "1.prems" True have "[''0123456789'' ! n] = str_nat (m div 10) @ [''0123456789'' ! (m mod 10)]"
        by (simp add: str_nat.simps [of n] str_nat.simps [of m])
      then show ?thesis using str_nat_nonempty [of "m div 10"] by simp
    qed
  next
    case False
    show ?thesis
    proof (cases "m < 10")
      case True
      with "1.prems" False have "str_nat (n div 10) @ [''0123456789'' ! (n mod 10)] = [''0123456789'' ! m]"
        by (simp add: str_nat.simps [of n] str_nat.simps [of m])
      then show ?thesis using str_nat_nonempty [of "n div 10"] by simp
    next
      case mge: False
      from "1.prems" False mge
      have eq: "str_nat (n div 10) @ [''0123456789'' ! (n mod 10)]
              = str_nat (m div 10) @ [''0123456789'' ! (m mod 10)]"
        by (simp add: str_nat.simps [of n] str_nat.simps [of m])
      then have hi: "str_nat (n div 10) = str_nat (m div 10)"
        and lo: "''0123456789'' ! (n mod 10) = ''0123456789'' ! (m mod 10)"
        by simp_all
      from hi False have "n div 10 = m div 10" by (rule "1.IH" [rotated])
      moreover from lo have "n mod 10 = m mod 10" by (intro digit_inj) simp_all
      ultimately show ?thesis by (metis div_mult_mod_eq)
    qed
  qed
qed

lemma temp_file_name_inj: "temp_file_name t i = temp_file_name t j \<Longrightarrow> i = j"
  by (simp add: temp_file_name_def str_nat_inj)

lemma temp_files_of_eq: "temp_files_of t chunks = map (temp_file_name t) [0..<length chunks]"
  by (simp add: temp_files_of_def enumerate_eq_zip map_fst_zip_take case_prod_unfold
        flip: map_map [of "temp_file_name t" fst, unfolded comp_def])

lemma distinct_temp_files: "distinct (temp_files_of t chunks)"
  by (auto simp: temp_files_of_eq distinct_map inj_on_def dest: temp_file_name_inj)

lemma output_not_temp_file: "full_path t \<notin> set (temp_files_of t chunks)"
  by (auto simp: temp_files_of_eq temp_file_name_def)


lemma create_chunks_starts_sorted:
  assumes "create_chunks t = Inr chunks"
  shows "sorted (map fst chunks)"
proof -
  have "sorted_wrt chunk_before chunks" using assms by (rule create_chunks_sorted)
  then have "sorted_wrt (\<lambda>c d. fst c \<le> fst d) chunks"
    by (rule sorted_wrt_mono_rel [rotated]) (auto simp: chunk_before_def split: option.splits)
  then show ?thesis by (simp add: sorted_wrt_map)
qed

lemma sinks_by_offset_planned:
  assumes "create_chunks t = Inr chunks" and "length temp_files = length chunks"
  shows "sinks_by_offset chunks temp_files = temp_files"
proof -
  have "sorted (map fst (zip (map fst chunks) temp_files))"
    using create_chunks_starts_sorted [OF assms(1)] assms(2) by simp
  then have "sort_key fst (zip (map fst chunks) temp_files) = zip (map fst chunks) temp_files"
    by (rule sort_key_id_if_sorted)
  with assms(2) show ?thesis by (simp add: sinks_by_offset_def)
qed

lemma length_temp_files_of: "length (temp_files_of t chunks) = length chunks"
  by (simp add: temp_files_of_eq)

lemma concat_existing:
  "concat (map (read_file fs) (filter (os_path_exists fs) ps)) = concat (map (read_file fs) ps)"
  by (induction ps) (auto simp: read_file_def os_path_exists_def)

section \<open>Properties of the assembler\<close>

lemma fs_simps [simp]:
  "faults (open_wb fs p) = faults fs"
  "faults (file_write fs p bs) = faults fs"
  "faults (os_remove fs p) = faults fs"
  "files (open_wb fs p) = (files fs)(p \<mapsto> [])"
  "files (os_remove fs p) = (files fs)(p := None)"
  by (simp_all add: open_wb_def file_write_def os_remove_def split: option.splits)

lemma files_file_write:
  "files (file_write fs p bs) q =
     (if q = p then map_option (\<lambda>content. content @ bs) (files fs p) else files fs q)"
  by (simp add: file_write_def split: option.splits)

lemma read_file_missing: "files fs p = None \<Longrightarrow> read_file fs p = []"
  by (simp add: read_file_def)

lemma concat_skip_missing:
  "read_file fs p = [] \<Longrightarrow>
     concat (map (read_file fs) (filter (\<lambda>q. q \<noteq> p) ps)) = concat (map (read_file fs) ps)"
  by (induction ps) auto

lemma set_listed_once: "set (listed_once ps) = set ps"
  by (induction ps) auto

lemma distinct_listed_once: "distinct (listed_once ps)"
  by (induction ps) (auto simp: set_listed_once)

lemma listed_once_distinct: "distinct ps \<Longrightarrow> listed_once ps = ps"
  by (induction ps) (auto simp: set_listed_once filter_id_conv)

text \<open>
  The loop on an operating system that refuses nothing: every listed path is gone
  afterwards, and the output, where it still exists, has grown by the sinks that existed.
\<close>

lemma combine_loop_working:
  assumes "\<forall>call. faults fs call out = None" and "\<forall>p \<in> set tfs. \<forall>call. faults fs call p = None"
  shows "fst (combine_loop out tfs fs) = None
       \<and> faults (snd (combine_loop out tfs fs)) = faults fs
       \<and> files (snd (combine_loop out tfs fs)) =
           (\<lambda>q. if q \<in> set tfs then None
                else if q = out
                     then map_option
                            (\<lambda>content. content @ concat (map (read_file fs) (listed_once tfs)))
                            (files fs out)
                else files fs q)"
  using assms
proof (induction tfs arbitrary: fs)
  case Nil
  then show ?case by (auto simp: fun_eq_iff option.map_ident)
next
  case (Cons p rest)
  show ?case
  proof (cases "os_path_exists fs p")
    case False
    then have missing: "files fs p = None" by (simp add: os_path_exists_def)
    then have empty: "read_file fs p = []" by (rule read_file_missing)
    have ih: "fst (combine_loop out rest fs) = None
       \<and> faults (snd (combine_loop out rest fs)) = faults fs
       \<and> files (snd (combine_loop out rest fs)) =
           (\<lambda>q. if q \<in> set rest then None
                else if q = out
                     then map_option
                            (\<lambda>content. content @ concat (map (read_file fs) (listed_once rest)))
                            (files fs out)
                else files fs q)"
      using Cons.prems by (intro Cons.IH) auto
    from False ih missing show ?thesis
      by (auto simp: fun_eq_iff empty concat_skip_missing)
  next
    case True
    let ?fs1 = "os_remove (file_write fs out (read_file fs p)) p"
    have unfold: "combine_loop out (p # rest) fs = combine_loop out rest ?fs1"
      using True Cons.prems by (simp add: leave_with_def)
    have ih: "fst (combine_loop out rest ?fs1) = None
       \<and> faults (snd (combine_loop out rest ?fs1)) = faults ?fs1
       \<and> files (snd (combine_loop out rest ?fs1)) =
           (\<lambda>q. if q \<in> set rest then None
                else if q = out
                     then map_option
                            (\<lambda>content. content @ concat (map (read_file ?fs1) (listed_once rest)))
                            (files ?fs1 out)
                else files ?fs1 q)"
      using Cons.prems by (intro Cons.IH) auto
    have gone: "read_file ?fs1 p = []"
      by (simp add: read_file_def)
    have others: "\<And>q. q \<noteq> p \<Longrightarrow> q \<noteq> out \<Longrightarrow> read_file ?fs1 q = read_file fs q"
      by (simp add: read_file_def files_file_write)
    have gathered: "out \<notin> set rest \<Longrightarrow>
        concat (map (read_file ?fs1) (listed_once rest))
          = concat (map (read_file fs) (filter (\<lambda>q. q \<noteq> p) (listed_once rest)))"
    proof -
      assume "out \<notin> set rest"
      then have "map (read_file ?fs1) (filter (\<lambda>q. q \<noteq> p) (listed_once rest))
                   = map (read_file fs) (filter (\<lambda>q. q \<noteq> p) (listed_once rest))"
        by (intro map_cong refl others) (auto simp: set_listed_once)
      with concat_skip_missing [OF gone, of "listed_once rest"] show ?thesis by simp
    qed
    show ?thesis
      unfolding unfold using ih gathered
      by (auto simp: fun_eq_iff files_file_write option.map_comp comp_def
               split: option.splits)
  qed
qed

text \<open>When the loop raises, the text is that of a refused call.\<close>

lemma combine_loop_exception:
  "combine_loop out tfs fs = (Some d, fs') \<Longrightarrow> \<exists>call p. faults fs call p = Some d"
proof (induction out tfs fs rule: combine_loop.induct)
  case (1 out fs)
  then show ?case by simp
next
  case (2 out temp_file rest fs)
  then show ?case
    by (auto simp: leave_with_def split: if_splits option.splits)
qed

lemma combine_loop_faults: "faults (snd (combine_loop out tfs fs)) = faults fs"
  by (induction out tfs fs rule: combine_loop.induct)
     (auto simp: leave_with_def split: option.splits)

lemma combine_chunks_working:
  assumes "\<forall>call. faults fs call (full_path t) = None"
    and "\<forall>p \<in> set tfs. \<forall>call. faults fs call p = None"
  shows "fst (combine_chunks t tfs fs) = t
       \<and> faults (snd (combine_chunks t tfs fs)) = faults fs
       \<and> files (snd (combine_chunks t tfs fs)) =
           (\<lambda>q. if q \<in> set tfs then None
                else if q = full_path t
                     then Some (concat (map (read_file fs) (listed_once tfs)))
                else files fs q)"
proof -
  let ?out = "full_path t"
  let ?fs0 = "open_wb fs ?out"
  have same: "concat (map (read_file ?fs0) (listed_once tfs))
                = concat (map (read_file fs) (listed_once tfs))"
    if "?out \<notin> set tfs"
  proof -
    from that have "map (read_file ?fs0) (listed_once tfs) = map (read_file fs) (listed_once tfs)"
      by (intro map_cong refl) (auto simp: read_file_def set_listed_once)
    then show ?thesis by (rule arg_cong)
  qed
  have loop: "fst (combine_loop ?out tfs ?fs0) = None
       \<and> faults (snd (combine_loop ?out tfs ?fs0)) = faults ?fs0
       \<and> files (snd (combine_loop ?out tfs ?fs0)) =
           (\<lambda>q. if q \<in> set tfs then None
                else if q = ?out
                     then map_option
                            (\<lambda>content. content @ concat (map (read_file ?fs0) (listed_once tfs)))
                            (files ?fs0 ?out)
                else files ?fs0 q)"
    using assms by (intro combine_loop_working) auto
  obtain exc fs' where res: "combine_loop ?out tfs ?fs0 = (exc, fs')"
    by (cases "combine_loop ?out tfs ?fs0")
  with loop have none: "exc = None" and flt: "faults fs' = faults fs" by simp_all
  with res assms(1) have cc: "combine_chunks t tfs fs = (t, fs')"
    by (simp add: combine_chunks_def leave_with_def)
  from loop res show ?thesis
    unfolding cc by (auto simp: fun_eq_iff same)
qed

text \<open>
  C9. When every planned sink exists and the operating system refuses no call on a sink
  or on the final file, \<^verbatim>\<open>_combine_chunks\<close> leaves in the
  final file exactly the concatenation of the sink contents in ascending order of the
  start offset of their chunks, and afterwards no sink exists. The result is a function
  of the sink contents and of the plan alone, so the order in which the fetches finished
  has no influence on it.
\<close>

theorem combine_chunks_in_offset_order:
  assumes "create_chunks t = Inr chunks"
    and "\<forall>call. faults fs call (full_path t) = None"
    and "\<forall>p \<in> set (temp_files_of t chunks).
           os_path_exists fs p \<and> (\<forall>call. faults fs call p = None)"
  shows "fst (combine_chunks t (temp_files_of t chunks) fs) = t
       \<and> files (snd (combine_chunks t (temp_files_of t chunks) fs)) (full_path t) =
           Some (concat (map (read_file fs) (sinks_by_offset chunks (temp_files_of t chunks))))
       \<and> (\<forall>p \<in> set (temp_files_of t chunks).
             \<not> os_path_exists (snd (combine_chunks t (temp_files_of t chunks) fs)) p)"
proof -
  have order: "sinks_by_offset chunks (temp_files_of t chunks) = temp_files_of t chunks"
    using assms(1) length_temp_files_of by (rule sinks_by_offset_planned)
  have once: "listed_once (temp_files_of t chunks) = temp_files_of t chunks"
    using distinct_temp_files by (rule listed_once_distinct)
  have "fst (combine_chunks t (temp_files_of t chunks) fs) = t
       \<and> faults (snd (combine_chunks t (temp_files_of t chunks) fs)) = faults fs
       \<and> files (snd (combine_chunks t (temp_files_of t chunks) fs)) =
           (\<lambda>q. if q \<in> set (temp_files_of t chunks) then None
                else if q = full_path t
                     then Some (concat (map (read_file fs) (listed_once (temp_files_of t chunks))))
                else files fs q)"
    using assms(2,3) by (intro combine_chunks_working) auto
  then show ?thesis
    using output_not_temp_file [of t chunks] by (simp add: order once os_path_exists_def)
qed

theorem combine_chunks_in_offset_order_witness:
  "create_chunks (example_task\<lparr>supports_range := True, total_size := 2097152\<rparr>)
     = Inr [(0, Some 1048575), (1048576, Some 2097151)]
   \<and> temp_files_of (example_task\<lparr>supports_range := True, total_size := 2097152\<rparr>)
       [(0, Some 1048575), (1048576, Some 2097151)] = [''d/f.bin.part0'', ''d/f.bin.part1'']
   \<and> files (snd (combine_chunks (example_task\<lparr>supports_range := True, total_size := 2097152\<rparr>)
                  [''d/f.bin.part0'', ''d/f.bin.part1'']
                  (example_disk\<lparr>files := (files example_disk)(''d/f.bin.part1'' \<mapsto> [4, 5])\<rparr>)))
        ''d/f.bin'' = Some [1, 2, 3, 4, 5]
   \<and> os_path_exists
        (snd (combine_chunks (example_task\<lparr>supports_range := True, total_size := 2097152\<rparr>)
                [''d/f.bin.part0'', ''d/f.bin.part1'']
                (example_disk\<lparr>files := (files example_disk)(''d/f.bin.part1'' \<mapsto> [4, 5])\<rparr>)))
        ''d/f.bin.part1'' = False"
proof -
  let ?t = "example_task\<lparr>supports_range := True, total_size := 2097152\<rparr>"
  let ?chunks = "[(0, Some 1048575), (1048576, Some 2097151)] :: chunk list"
  let ?d = "example_disk\<lparr>files := (files example_disk)(''d/f.bin.part1'' \<mapsto> [4, 5])\<rparr>"
  have names: "temp_files_of ?t ?chunks = [''d/f.bin.part0'', ''d/f.bin.part1'']"
    by (simp add: temp_files_of_def temp_file_name_def enumerate_eq_zip upt_rec str_nat.simps
          example_task_def init_task_def)
  have planned: "create_chunks ?t = Inr ?chunks"
    by (simp add: create_chunks_def example_task_def init_task_def range_py_def
          chunk_step_def upt_rec)
  have writable: "\<forall>call. faults ?d call (full_path ?t) = None"
    by (simp add: example_disk_def)
  have sinks: "\<forall>p \<in> set (temp_files_of ?t ?chunks).
                 os_path_exists ?d p \<and> (\<forall>call. faults ?d call p = None)"
    by (simp add: names example_disk_def os_path_exists_def)
  have order: "sinks_by_offset ?chunks [''d/f.bin.part0'', ''d/f.bin.part1'']
                 = [''d/f.bin.part0'', ''d/f.bin.part1'']"
    by (simp add: sinks_by_offset_def)
  from combine_chunks_in_offset_order [OF planned writable sinks, unfolded names order] planned
  show ?thesis
    unfolding names
    by (simp add: read_file_def os_path_exists_def example_disk_def example_task_def
          init_task_def)
qed

lemma combine_chunks_exception:
  "fst (combine_chunks t tfs fs) = t
   \<or> (\<exists>call p d. faults fs call p = Some d \<and> fst (combine_chunks t tfs fs) = combine_failed t d)"
proof (cases "faults fs Open (full_path t)")
  case (Some d)
  then show ?thesis by (auto simp: combine_chunks_def)
next
  case None
  let ?fs0 = "open_wb fs (full_path t)"
  obtain exc fs' where res: "combine_loop (full_path t) tfs ?fs0 = (exc, fs')"
    by (cases "combine_loop (full_path t) tfs ?fs0")
  have flt: "faults fs' = faults fs"
    using combine_loop_faults [of "full_path t" tfs ?fs0] res by simp
  show ?thesis
  proof (cases "leave_with fs' (full_path t) exc")
    case None
    with \<open>faults fs Open (full_path t) = None\<close> res show ?thesis
      by (simp add: combine_chunks_def)
  next
    case (Some d)
    with \<open>faults fs Open (full_path t) = None\<close> res
    have failed: "fst (combine_chunks t tfs fs) = combine_failed t d"
      by (simp add: combine_chunks_def)
    have "\<exists>call p. faults fs call p = Some d"
    proof (cases "faults fs' Close (full_path t)")
      case None
      with Some have "exc = Some d" by (simp add: leave_with_def)
      with res combine_loop_exception [of "full_path t" tfs ?fs0 d fs'] show ?thesis by simp
    next
      case (Some d')
      with \<open>leave_with fs' (full_path t) exc = Some d\<close> have "d' = d"
        by (simp add: leave_with_def)
      with Some flt show ?thesis by auto
    qed
    with failed show ?thesis by blast
  qed
qed

text \<open>
  C2, amended. \<^verbatim>\<open>_combine_chunks\<close> neither requires a sink to exist nor compares a
  sink's size with its byte range. For every list of sinks: when the operating system
  refuses no call on the final file or on a listed sink, the task is left as it is (no
  error status), every listed path is gone afterwards, and the final file holds the
  concatenation, in list order, of the sinks that existed, each path copied once, at its
  first place; should the path of the final file itself be listed, it is removed like a
  sink and no final file remains. In every case the task is either left as it is or
  enters the error state with the text of a call that the operating system refused.
\<close>

theorem combine_chunks_skips_missing:
  "((\<forall>call. faults fs call (full_path t) = None)
      \<and> (\<forall>p \<in> set temp_files. \<forall>call. faults fs call p = None) \<longrightarrow>
        fst (combine_chunks t temp_files fs) = t
      \<and> (\<forall>p \<in> set temp_files. \<not> os_path_exists (snd (combine_chunks t temp_files fs)) p)
      \<and> files (snd (combine_chunks t temp_files fs)) (full_path t) =
          (if full_path t \<in> set temp_files then None
           else Some (concat (map (read_file fs)
                        (filter (os_path_exists fs) (listed_once temp_files))))))
   \<and> (fst (combine_chunks t temp_files fs) = t
      \<or> (\<exists>call p d. faults fs call p = Some d
            \<and> fst (combine_chunks t temp_files fs) = combine_failed t d))"
proof (intro conjI impI)
  assume working: "(\<forall>call. faults fs call (full_path t) = None)
                   \<and> (\<forall>p \<in> set temp_files. \<forall>call. faults fs call p = None)"
  then have result: "fst (combine_chunks t temp_files fs) = t
       \<and> faults (snd (combine_chunks t temp_files fs)) = faults fs
       \<and> files (snd (combine_chunks t temp_files fs)) =
           (\<lambda>q. if q \<in> set temp_files then None
                else if q = full_path t
                     then Some (concat (map (read_file fs) (listed_once temp_files)))
                else files fs q)"
    by (intro combine_chunks_working) auto
  from result show "fst (combine_chunks t temp_files fs) = t" by simp
  from result show "\<forall>p \<in> set temp_files. \<not> os_path_exists (snd (combine_chunks t temp_files fs)) p"
    by (simp add: os_path_exists_def)
  from result show "files (snd (combine_chunks t temp_files fs)) (full_path t) =
          (if full_path t \<in> set temp_files then None
           else Some (concat (map (read_file fs)
                        (filter (os_path_exists fs) (listed_once temp_files)))))"
    by (simp add: concat_existing)
next
  show "fst (combine_chunks t temp_files fs) = t
      \<or> (\<exists>call p d. faults fs call p = Some d
            \<and> fst (combine_chunks t temp_files fs) = combine_failed t d)"
    by (rule combine_chunks_exception)
qed

text \<open>
  C2, as stated, fails: of two sinks the second is missing and the first holds three
  bytes; assembly raises nothing, the status stays \<^verbatim>\<open>downloading\<close> with no error message,
  and the final file is the three bytes of the first sink.
\<close>

theorem combine_chunks_missing_sink_counterexample:
  "status (fst (combine_chunks example_task [''d/f.bin.part0'', ''d/f.bin.part1''] example_disk))
     = ''downloading''
   \<and> error_message (fst (combine_chunks example_task [''d/f.bin.part0'', ''d/f.bin.part1''] example_disk))
     = None
   \<and> os_path_exists example_disk ''d/f.bin.part1'' = False
   \<and> files (snd (combine_chunks example_task [''d/f.bin.part0'', ''d/f.bin.part1''] example_disk))
        ''d/f.bin'' = Some [1, 2, 3]"
  by (simp add: combine_chunks_def example_task_def example_disk_def init_task_def
        os_path_exists_def read_file_def open_wb_def file_write_def os_remove_def leave_with_def)

theorem combine_chunks_skips_missing_witness:
  "(\<forall>call. faults example_disk call (full_path example_task) = None)
   \<and> fst (combine_chunks example_task [''d/f.bin.part0'', ''d/f.bin.part1''] example_disk)
       = example_task
   \<and> os_path_exists
        (snd (combine_chunks example_task [''d/f.bin.part0'', ''d/f.bin.part1''] example_disk))
        ''d/f.bin.part0'' = False
   \<and> files (snd (combine_chunks example_task [''d/f.bin.part0'', ''d/f.bin.part1''] example_disk))
        (full_path example_task) = Some [1, 2, 3]"
proof -
  have working: "(\<forall>call. faults example_disk call (full_path example_task) = None)
                 \<and> (\<forall>p \<in> set [''d/f.bin.part0'', ''d/f.bin.part1''].
                       \<forall>call. faults example_disk call p = None)"
    by (simp add: example_disk_def)
  have listed: "full_path example_task \<notin> set [''d/f.bin.part0'', ''d/f.bin.part1'']"
    by (simp add: example_task_def init_task_def)
  have content: "concat (map (read_file example_disk)
                    (filter (os_path_exists example_disk)
                       (listed_once [''d/f.bin.part0'', ''d/f.bin.part1'']))) = [1, 2, 3]"
    by (simp add: os_path_exists_def read_file_def example_disk_def)
  from combine_chunks_skips_missing [of example_disk example_task
      "[''d/f.bin.part0'', ''d/f.bin.part1'']"] working
  have result: "fst (combine_chunks example_task [''d/f.bin.part0'', ''d/f.bin.part1''] example_disk)
          = example_task
      \<and> (\<forall>p \<in> set [''d/f.bin.part0'', ''d/f.bin.part1''].
            \<not> os_path_exists
                (snd (combine_chunks example_task [''d/f.bin.part0'', ''d/f.bin.part1''] example_disk)) p)
      \<and> files (snd (combine_chunks example_task [''d/f.bin.part0'', ''d/f.bin.part1''] example_disk))
          (full_path example_task) =
          (if full_path example_task \<in> set [''d/f.bin.part0'', ''d/f.bin.part1''] then None
           else Some (concat (map (read_file example_disk)
                        (filter (os_path_exists example_disk)
                           (listed_once [''d/f.bin.part0'', ''d/f.bin.part1''])))))"
    by blast
  from result [unfolded content] listed working show ?thesis by simp
qed

text \<open>
  C10. For a task whose status is not \<^verbatim>\<open>paused\<close>, \<^verbatim>\<open>resume()\<close> changes nothing: the
  pause flag keeps its value and no worker thread is started, also when it is called
  through the resume route.
\<close>

theorem resume_not_paused_is_noop:
  assumes "status (heap w a) \<noteq> ''paused''"
  shows "resume a w = w
       \<and> paused (heap (resume a w) a) = paused (heap w a)
       \<and> workers (resume a w) = workers w
       \<and> (download_tasks w download_id = Some a \<longrightarrow>
            snd (resume_download_route download_id w) = w)"
  using assms by (simp add: resume_def resume_download_route_def)

theorem resume_not_paused_is_noop_witness:
  "status (heap (example_world\<lparr>heap := (\<lambda>a. pause example_task)\<rparr>) 0) = ''downloading''
   \<and> download_tasks (example_world\<lparr>heap := (\<lambda>a. pause example_task)\<rparr>) ''id1'' = Some 0
   \<and> paused (heap (resume 0 (example_world\<lparr>heap := (\<lambda>a. pause example_task)\<rparr>)) 0)
   \<and> workers (resume 0 (example_world\<lparr>heap := (\<lambda>a. pause example_task)\<rparr>)) = [0]
   \<and> snd (resume_download_route ''id1'' (example_world\<lparr>heap := (\<lambda>a. pause example_task)\<rparr>))
       = example_world\<lparr>heap := (\<lambda>a. pause example_task)\<rparr>"
proof -
  let ?w = "example_world\<lparr>heap := (\<lambda>a. pause example_task)\<rparr>"
  have running: "status (heap ?w 0) \<noteq> ''paused''"
    by (simp add: pause_def example_task_def)
  have registered: "download_tasks ?w ''id1'' = Some 0"
    by (simp add: example_world_def)
  from resume_not_paused_is_noop [OF running, of "''id1''"] registered
  show ?thesis by (simp add: pause_def example_task_def example_world_def)
qed

text \<open>
  C3, amended. For every registered task, whatever its state, the cancel route sets the
  task's pause flag (the signal the fetchers poll), removes the task from
  \<^verbatim>\<open>download_tasks\<close> and answers \<^verbatim>\<open>cancelled\<close>; it leaves the task's status as it was
  and touches no file, neither a sink nor the final output, and starts no thread.
\<close>

theorem cancel_sets_flag_and_unregisters:
  assumes "download_tasks w download_id = Some a"
  shows "fst (cancel_download_route download_id w)
           = ([(''status'', JStr ''cancelled''), (''success'', JBool True)], 200)
       \<and> heap (snd (cancel_download_route download_id w)) a = (heap w a)\<lparr>paused := True\<rparr>
       \<and> status (heap (snd (cancel_download_route download_id w)) a) = status (heap w a)
       \<and> download_tasks (snd (cancel_download_route download_id w)) download_id = None
       \<and> env (snd (cancel_download_route download_id w)) = env w
       \<and> workers (snd (cancel_download_route download_id w)) = workers w"
  using assms by (simp add: cancel_download_route_def pause_def)

text \<open>
  C3, as stated, fails: cancelling a downloading task whose first sink and output
  placeholder are on disk leaves its status \<^verbatim>\<open>downloading\<close> and both files in place.
\<close>

theorem cancel_leaves_files_counterexample:
  "download_tasks example_world ''id1'' = Some 0
   \<and> status (heap example_world 0) = ''downloading''
   \<and> status (heap (snd (cancel_download_route ''id1'' example_world)) 0) = ''downloading''
   \<and> os_path_exists (disk (env (snd (cancel_download_route ''id1'' example_world)))) ''d/f.bin.part0''
   \<and> os_path_exists (disk (env (snd (cancel_download_route ''id1'' example_world)))) ''d/f.bin''"
  by (simp add: cancel_download_route_def example_world_def example_task_def example_disk_def
        pause_def os_path_exists_def)

theorem cancel_sets_flag_and_unregisters_witness:
  "download_tasks example_world ''id1'' = Some 0
   \<and> paused (heap (snd (cancel_download_route ''id1'' example_world)) 0)
   \<and> status (heap (snd (cancel_download_route ''id1'' example_world)) 0) = ''downloading''
   \<and> download_tasks (snd (cancel_download_route ''id1'' example_world)) ''id1'' = None"
proof -
  have registered: "download_tasks example_world ''id1'' = Some 0"
    by (simp add: example_world_def)
  from cancel_sets_flag_and_unregisters [OF registered] registered
  show ?thesis by (simp add: example_world_def example_task_def)
qed

section \<open>Properties of the fetchers\<close>

lemma download_chunk_step_frame:
  assumes "download_chunk_step j f (t, s) = (f', t', s')"
  shows "t' = t\<lparr>downloaded_size := downloaded_size t'\<rparr>
       \<and> downloaded_size t \<le> downloaded_size t'
       \<and> net s' = net s \<and> faults (disk s') = faults (disk s)
       \<and> requests s' = (if f = Queued
                         then (requests s)(Some (job_range j) := Suc (requests s (Some (job_range j))))
                         else requests s)
       \<and> f' \<noteq> Queued"
  using assms
  by (cases "(j, f, (t, s))" rule: download_chunk_step.cases)
     (auto simp: send_request_def chunk_ends_def split: http_result.splits if_splits option.splits)



lemma is_finished_simps [simp]:
  "\<not> is_finished Queued" "\<not> is_finished (Streaming body)" "\<not> is_finished (Writing block body)"
  "is_finished (Finished exc)"
  by (simp_all add: is_finished_def)

lemma is_finishedE: "is_finished f \<Longrightarrow> (\<And>exc. f = Finished exc \<Longrightarrow> P) \<Longrightarrow> P"
  by (cases f) simp_all

text \<open>A worker step does nothing, or advances its job by one step of the fetch.\<close>

lemma worker_cases:
  obtains (idle) "worker i c = c"
  | (acts) f' t' s' where "i < length (futures c)" and "i < length (jobs c)"
      and "\<not> is_finished (futures c ! i)"
      and "download_chunk_step (jobs c ! i) (futures c ! i) (ptask c, psys c) = (f', t', s')"
      and "worker i c = c\<lparr>ptask := t', psys := s', futures := (futures c)[i := f'],
             completed := (if is_finished f' then completed c @ [i] else completed c)\<rparr>"
proof (cases "i < length (futures c) \<and> i < length (jobs c) \<and> \<not> is_finished (futures c ! i)
              \<and> \<not> (futures c ! i = Queued \<and> \<not> may_start i c)")
  case False
  then have "worker i c = c" by (auto simp: worker_def)
  then show ?thesis by (rule idle)
next
  case True
  obtain f' t' s' where
    st: "download_chunk_step (jobs c ! i) (futures c ! i) (ptask c, psys c) = (f', t', s')"
    by (cases "download_chunk_step (jobs c ! i) (futures c ! i) (ptask c, psys c)")
  with True have "worker i c = c\<lparr>ptask := t', psys := s', futures := (futures c)[i := f'],
             completed := (if is_finished f' then completed c @ [i] else completed c)\<rparr>"
    by (auto simp: worker_def)
  with True st show ?thesis by (intro acts [of f' t' s']) simp_all
qed

text \<open>The outcomes of a step of the calling thread.\<close>

lemma main_thread_cases:
  obtains (waits) "main_thread c = c"
  | (breaks) "main c = InLoop" and "paused (ptask c)"
      and "main_thread c = c\<lparr>main := Left Break\<rparr>"
  | (raises) msg where "main c = InLoop" and "handled c < length (completed c)"
      and "\<not> paused (ptask c)" and "futures c ! (completed c ! handled c) = Finished (Some msg)"
      and "main_thread c = c\<lparr>ptask := chunk_download_failed (ptask c) msg, main := Left Return\<rparr>"
  | (goes_on) "main c = InLoop" and "main_thread c = c\<lparr>handled := Suc (handled c)\<rparr>"
  | (ends) "main c = InLoop" and "main_thread c = c\<lparr>main := Left Exhausted\<rparr>"
  | (combines) ex where "main c = Left ex" and "ex \<noteq> Return"
      and "list_all is_finished (futures c)"
      and "main_thread c =
             c\<lparr>ptask := fst (combine_chunks (ptask c) (sinks c) (disk (psys c))),
               psys := (psys c)\<lparr>disk := snd (combine_chunks (ptask c) (sinks c) (disk (psys c)))\<rparr>,
               main := Returned ex\<rparr>"
  | (returns) ex where "main c = Left ex" and "list_all is_finished (futures c)"
      and "main_thread c = c\<lparr>main := Returned ex\<rparr>"
proof (cases "main c")
  case InLoop
  show ?thesis
  proof (cases "handled c < length (completed c)")
    case False
    with InLoop have "main_thread c = c \<or> main_thread c = c\<lparr>main := Left Exhausted\<rparr>"
      by (simp add: main_thread_def)
    with InLoop show ?thesis using waits ends by blast
  next
    case True
    show ?thesis
    proof (cases "paused (ptask c)")
      case p: True
      with InLoop True have "main_thread c = c\<lparr>main := Left Break\<rparr>"
        by (simp add: main_thread_def)
      with InLoop p show ?thesis by (intro breaks)
    next
      case np: False
      show ?thesis
      proof (cases "\<exists>msg. futures c ! (completed c ! handled c) = Finished (Some msg)")
        case True
        then obtain msg where m: "futures c ! (completed c ! handled c) = Finished (Some msg)" ..
        with InLoop \<open>handled c < length (completed c)\<close> np
        have "main_thread c = c\<lparr>ptask := chunk_download_failed (ptask c) msg, main := Left Return\<rparr>"
          by (simp add: main_thread_def)
        with InLoop \<open>handled c < length (completed c)\<close> np m show ?thesis by (intro raises)
      next
        case False
        with InLoop \<open>handled c < length (completed c)\<close> np
        have "main_thread c = c\<lparr>handled := Suc (handled c)\<rparr>"
          by (auto simp: main_thread_def split: fetch_state.splits option.splits)
        with InLoop show ?thesis by (intro goes_on)
      qed
    qed
  qed
next
  case (Left ex)
  show ?thesis
  proof (cases "list_all is_finished (futures c)")
    case False
    with Left have "main_thread c = c" by (simp add: main_thread_def)
    then show ?thesis by (rule waits)
  next
    case True
    show ?thesis
    proof (cases "ex \<noteq> Return \<and> \<not> paused (ptask c) \<and> status (ptask c) \<noteq> ''error''")
      case c: True
      with Left True have "main_thread c =
             c\<lparr>ptask := fst (combine_chunks (ptask c) (sinks c) (disk (psys c))),
               psys := (psys c)\<lparr>disk := snd (combine_chunks (ptask c) (sinks c) (disk (psys c)))\<rparr>,
               main := Returned ex\<rparr>"
        by (simp add: main_thread_def split: prod.splits)
      with Left True c show ?thesis by (intro combines [of ex]) simp_all
    next
      case False
      with Left True have "main_thread c = c\<lparr>main := Returned ex\<rparr>"
        by (auto simp: main_thread_def)
      with Left True show ?thesis by (intro returns)
    qed
  qed
next
  case (Returned ex)
  then have "main_thread c = c" by (simp add: main_thread_def)
  then show ?thesis by (rule waits)
qed

lemma combine_chunks_faults: "faults (snd (combine_chunks t tfs fs)) = faults fs"
proof (cases "faults fs Open (full_path t)")
  case (Some d)
  then show ?thesis by (simp add: combine_chunks_def)
next
  case None
  obtain exc fs' where res: "combine_loop (full_path t) tfs (open_wb fs (full_path t)) = (exc, fs')"
    by (cases "combine_loop (full_path t) tfs (open_wb fs (full_path t))")
  with combine_loop_faults [of "full_path t" tfs "open_wb fs (full_path t)"]
  have "faults fs' = faults fs" by simp
  with None res show ?thesis by (simp add: combine_chunks_def split: option.splits)
qed

lemma combine_chunks_task:
  "fst (combine_chunks t tfs fs) = t
   \<or> (\<exists>d. fst (combine_chunks t tfs fs) = combine_failed t d)"
  using combine_chunks_exception [of t tfs fs] by blast

lemma step_shape:
  "length (futures (step a c)) = length (futures c) \<and> jobs (step a c) = jobs c
   \<and> sinks (step a c) = sinks c"
proof (cases a)
  case (Worker i)
  show ?thesis by (cases i c rule: worker_cases) (simp_all add: Worker)
next
  case MainThread
  show ?thesis by (cases c rule: main_thread_cases) (simp_all add: MainThread)
next
  case PauseRequest
  then show ?thesis by simp
qed

lemma step_frame:
  "total_size (ptask (step a c)) = total_size (ptask c)
   \<and> max_connections (ptask (step a c)) = max_connections (ptask c)
   \<and> full_path (ptask (step a c)) = full_path (ptask c)
   \<and> downloaded_size (ptask c) \<le> downloaded_size (ptask (step a c))
   \<and> net (psys (step a c)) = net (psys c)
   \<and> faults (disk (psys (step a c))) = faults (disk (psys c))"
proof (cases a)
  case (Worker i)
  show ?thesis
  proof (cases i c rule: worker_cases)
    case idle
    then show ?thesis by (simp add: Worker)
  next
    case (acts f' t' s')
    from download_chunk_step_frame [OF acts(4)] acts(5) show ?thesis
      by (simp add: Worker) (metis task.select_convs task.surjective task.update_convs(6))
  qed
next
  case MainThread
  show ?thesis
  proof (cases c rule: main_thread_cases)
    case (combines ex)
    with combine_chunks_task [of "ptask c" "sinks c" "disk (psys c)"]
      combine_chunks_faults [of "ptask c" "sinks c" "disk (psys c)"]
    show ?thesis by (auto simp: MainThread combine_failed_def)
  qed (simp_all add: MainThread chunk_download_failed_def)
next
  case PauseRequest
  then show ?thesis by (simp add: pause_def)
qed


lemma step_status:
  "status (ptask (step a c)) = status (ptask c) \<or> status (ptask (step a c)) = ''error''"
proof (cases a)
  case (Worker i)
  show ?thesis
  proof (cases i c rule: worker_cases)
    case idle
    then show ?thesis by (simp add: Worker)
  next
    case (acts f' t' s')
    from download_chunk_step_frame [OF acts(4)] acts(5) show ?thesis
      by (simp add: Worker) (metis task.select_convs task.surjective task.update_convs(6))
  qed
next
  case MainThread
  show ?thesis
  proof (cases c rule: main_thread_cases)
    case (combines ex)
    with combine_chunks_task [of "ptask c" "sinks c" "disk (psys c)"]
    show ?thesis by (auto simp: MainThread combine_failed_def)
  qed (simp_all add: MainThread chunk_download_failed_def)
next
  case PauseRequest
  then show ?thesis by (simp add: pause_def)
qed

text \<open>A future that has ended stays as it is.\<close>

lemma step_finished_stable:
  assumes "i < length (futures c)" and "futures c ! i = Finished exc"
  shows "futures (step a c) ! i = Finished exc"
proof (cases a)
  case (Worker k)
  show ?thesis
  proof (cases k c rule: worker_cases)
    case idle
    with assms show ?thesis by (simp add: Worker)
  next
    case (acts f' t' s')
    with assms have "k \<noteq> i" by auto
    with acts(5) assms show ?thesis by (simp add: Worker)
  qed
next
  case MainThread
  show ?thesis by (cases c rule: main_thread_cases) (simp_all add: MainThread assms)
next
  case PauseRequest
  with assms show ?thesis by simp
qed










lemma run_snoc: "run (sched @ [a]) c = step a (run sched c)"
  by (simp add: run_def)

lemma run_Nil: "run [] c = c"
  by (simp add: run_def)

text \<open>What holds along every schedule.\<close>

lemma run_shape:
  "length (futures (run sched c)) = length (futures c) \<and> jobs (run sched c) = jobs c
   \<and> sinks (run sched c) = sinks c"
proof (induction sched rule: rev_induct)
  case Nil
  show ?case by (simp add: run_Nil)
next
  case (snoc a sched)
  with step_shape [of a "run sched c"] show ?case by (simp add: run_snoc)
qed

lemma run_frame:
  "total_size (ptask (run sched c)) = total_size (ptask c)
   \<and> max_connections (ptask (run sched c)) = max_connections (ptask c)
   \<and> full_path (ptask (run sched c)) = full_path (ptask c)
   \<and> downloaded_size (ptask c) \<le> downloaded_size (ptask (run sched c))
   \<and> net (psys (run sched c)) = net (psys c)
   \<and> faults (disk (psys (run sched c))) = faults (disk (psys c))"
proof (induction sched rule: rev_induct)
  case Nil
  show ?case by (simp add: run_Nil)
next
  case (snoc a sched)
  with step_frame [of a "run sched c"] show ?case by (simp add: run_snoc)
qed

lemma run_status:
  "status (ptask (run sched c)) = status (ptask c) \<or> status (ptask (run sched c)) = ''error''"
proof (induction sched rule: rev_induct)
  case Nil
  show ?case by (simp add: run_Nil)
next
  case (snoc a sched)
  with step_status [of a "run sched c"] show ?case by (auto simp: run_snoc)
qed




section \<open>Properties of a multipart download\<close>

lemma start_pool_simps [simp]:
  "ptask (start_pool chunks rp (t, s)) = t"
  "psys (start_pool chunks rp (t, s)) = s"
  "jobs (start_pool chunks rp (t, s)) = submitted t chunks rp"
  "sinks (start_pool chunks rp (t, s)) = temp_files_of t chunks"
  "futures (start_pool chunks rp (t, s)) = map (\<lambda>j. Queued) (submitted t chunks rp)"
  "completed (start_pool chunks rp (t, s)) = []"
  "handled (start_pool chunks rp (t, s)) = 0"
  "main (start_pool chunks rp (t, s)) = InLoop"
  by (simp_all add: start_pool_def)

lemma multipart_download_run:
  "multipart_download chunks rp sched (t, s) = Inr c \<Longrightarrow>
     c = run sched (start_pool chunks rp (t, s)) \<and> 0 < max_connections t"
  by (auto simp: multipart_download_def split: if_splits)





lemma submitted_single:
  "full_path u = ''d/f.bin'' \<Longrightarrow>
     submitted u [(0, Some 3)] 0 = [(0, Some 3, ''d/f.bin.part0'', 0)]"
  by (simp add: submitted_def temp_files_of_def temp_file_name_def enumerate_eq_zip
        str_nat.simps)

lemma temp_files_single:
  "full_path u = ''d/f.bin'' \<Longrightarrow> temp_files_of u [(0, Some 3)] = [''d/f.bin.part0'']"
  by (simp add: temp_files_of_def temp_file_name_def enumerate_eq_zip str_nat.simps)

lemmas pool_defs =
  multipart_download_def run_def start_pool_def worker_def may_start_def running_def
  main_thread_def send_request_def chunk_ends_def leave_with_def job_range_def job_sink_def
  job_id_def chunk_failed_def loop_failure_def chunk_download_failed_def pause_def
  open_wb_def file_write_def str_nat.simps




lemma submitted_pair:
  "full_path u = ''d/f.bin'' \<Longrightarrow>
     submitted u [(0, Some 1048575), (1048576, Some 2097151)] 0
       = [(0, Some 1048575, ''d/f.bin.part0'', 0), (1048576, Some 2097151, ''d/f.bin.part1'', 1)]"
  by (simp add: submitted_def temp_files_of_def temp_file_name_def enumerate_eq_zip
        str_nat.simps upt_rec)

lemma temp_files_pair:
  "full_path u = ''d/f.bin'' \<Longrightarrow>
     temp_files_of u [(0, Some 1048575), (1048576, Some 2097151)] = [''d/f.bin.part0'', ''d/f.bin.part1'']"
  by (simp add: temp_files_of_def temp_file_name_def enumerate_eq_zip str_nat.simps upt_rec)

text \<open>
  The futures are taken in the order in which the fetches end: of two failed fetches the
  one that ended first is reported, here that of the second chunk.
\<close>

lemma first_completed_failure_is_reported:
  "create_chunks two_chunk_task = Inr [(0, Some 1048575), (1048576, Some 2097151)]"
  "completed (run [Worker 0, Worker 1, Worker 0, MainThread, MainThread]
     (start_pool [(0, Some 1048575), (1048576, Some 2097151)] 0
        (two_chunk_task, (env example_world)\<lparr>net := racing_net\<rparr>))) = [1, 0]"
  "futures (run [Worker 0, Worker 1, Worker 0, MainThread, MainThread]
     (start_pool [(0, Some 1048575), (1048576, Some 2097151)] 0
        (two_chunk_task, (env example_world)\<lparr>net := racing_net\<rparr>)))
     = [Finished (Some ''Failed to download chunk 0: slow''),
        Finished (Some ''Failed to download chunk 1: fast'')]"
  "main (run [Worker 0, Worker 1, Worker 0, MainThread, MainThread]
     (start_pool [(0, Some 1048575), (1048576, Some 2097151)] 0
        (two_chunk_task, (env example_world)\<lparr>net := racing_net\<rparr>))) = Returned Return"
  "error_message (ptask (run [Worker 0, Worker 1, Worker 0, MainThread, MainThread]
     (start_pool [(0, Some 1048575), (1048576, Some 2097151)] 0
        (two_chunk_task, (env example_world)\<lparr>net := racing_net\<rparr>))))
     = Some ''Chunk download failed: Failed to download chunk 1: fast''"
  by (simp_all add: pool_defs submitted_pair temp_files_pair example_world_def racing_net_def
        example_disk_def two_chunk_task_def example_task_def init_task_def
        create_chunks_def range_py_def chunk_step_def upt_rec)

lemma worker_writes:
  assumes "i < length (futures c)" and "i < length (jobs c)"
    and "futures c ! i = Writing block body"
    and "faults (disk (psys c)) Write (job_sink (jobs c ! i)) = None"
  shows "downloaded_size (ptask (worker i c)) = downloaded_size (ptask c) + int (length block)"
  using assms by (simp add: worker_def)

text \<open>
  C5, amended. Along every schedule of a multipart download the byte counter never
  decreases and \<open>total_size\<close> is never changed; every step that writes a block adds exactly
  the length of that block to the counter, whatever \<open>total_size\<close> is, so nothing keeps the
  counter at or below \<open>total_size\<close>. A multipart download never sets the status
  \<^verbatim>\<open>paused\<close>: after a pause the status is what it was, and \<^verbatim>\<open>resume()\<close> called then changes
  nothing, so there is no second run that could take the counter further.
\<close>

theorem downloaded_size_monotone_not_bounded:
  assumes "multipart_download chunks resume_pos sched (t, s) = Inr c"
  shows "downloaded_size t \<le> downloaded_size (ptask c)
       \<and> total_size (ptask c) = total_size t
       \<and> downloaded_size (ptask c) \<le> downloaded_size (ptask (step a c))
       \<and> (i < length (jobs c) \<and> futures c ! i = Writing block body
            \<and> faults (disk (psys c)) Write (job_sink (jobs c ! i)) = None \<longrightarrow>
            downloaded_size (ptask (step (Worker i) c))
              = downloaded_size (ptask c) + int (length block))
       \<and> (status t \<noteq> ''paused'' \<longrightarrow>
            status (ptask c) \<noteq> ''paused'' \<and> (heap w a' = ptask c \<longrightarrow> resume a' w = w))"
proof -
  let ?c0 = "start_pool chunks resume_pos (t, s)"
  from multipart_download_run [OF assms] have c: "c = run sched ?c0" by simp
  from run_frame [of sched ?c0] c
  have mono: "downloaded_size t \<le> downloaded_size (ptask c)"
    and size: "total_size (ptask c) = total_size t"
    by simp_all
  from step_frame [of a c]
  have further: "downloaded_size (ptask c) \<le> downloaded_size (ptask (step a c))" by simp
  from run_shape [of sched ?c0] c have len: "length (futures c) = length (jobs c)" by simp
  have written: "i < length (jobs c) \<and> futures c ! i = Writing block body
            \<and> faults (disk (psys c)) Write (job_sink (jobs c ! i)) = None \<longrightarrow>
            downloaded_size (ptask (step (Worker i) c))
              = downloaded_size (ptask c) + int (length block)"
    using worker_writes [of i c block body] len by simp
  have never: "status t \<noteq> ''paused'' \<longrightarrow>
            status (ptask c) \<noteq> ''paused'' \<and> (heap w a' = ptask c \<longrightarrow> resume a' w = w)"
  proof
    assume "status t \<noteq> ''paused''"
    with run_status [of sched ?c0] c have "status (ptask c) \<noteq> ''paused''" by auto
    then show "status (ptask c) \<noteq> ''paused'' \<and> (heap w a' = ptask c \<longrightarrow> resume a' w = w)"
      by (simp add: resume_def)
  qed
  from mono size further written never show ?thesis by blast
qed

text \<open>
  C5, as stated, fails: the server answers a request for the four bytes of the only chunk
  with six bytes, all six are written and counted, and the counter ends at 6 with
  \<open>total_size\<close> 4.
\<close>

theorem downloaded_size_exceeds_total_counterexample:
  "\<exists>c. multipart_download [(0, Some 3)] 0 [Worker 0, Worker 0, Worker 0, Worker 0, Worker 0]
          (four_byte_task, (env example_world)\<lparr>net := generous_net\<rparr>) = Inr c
       \<and> total_size (ptask c) = 4 \<and> downloaded_size (ptask c) = 6
       \<and> files (disk (psys c)) ''d/f.bin.part0'' = Some [1, 2, 3, 4, 5, 6]"
proof -
  let ?s = "(env example_world)\<lparr>net := generous_net\<rparr>"
  let ?c = "run [Worker 0, Worker 0, Worker 0, Worker 0, Worker 0]
              (start_pool [(0, Some 3)] 0 (four_byte_task, ?s))"
  have ran: "multipart_download [(0, Some 3)] 0
               [Worker 0, Worker 0, Worker 0, Worker 0, Worker 0] (four_byte_task, ?s) = Inr ?c"
    by (simp add: multipart_download_def four_byte_task_def example_task_def init_task_def)
  have state: "total_size (ptask ?c) = 4" "downloaded_size (ptask ?c) = 6"
    "files (disk (psys ?c)) ''d/f.bin.part0'' = Some [1, 2, 3, 4, 5, 6]"
    by (simp_all add: pool_defs submitted_single temp_files_single example_world_def
          generous_net_def example_disk_def four_byte_task_def example_task_def init_task_def)
  from ran state show ?thesis by blast
qed

theorem downloaded_size_monotone_not_bounded_witness:
  "(\<exists>c. multipart_download [(0, Some 3)] 0 [Worker 0, Worker 0]
           (four_byte_task, (env example_world)\<lparr>net := steady_net\<rparr>) = Inr c
        \<and> futures c ! 0 = Writing [1, 2] [Data [3, 4]]
        \<and> downloaded_size (ptask c) = 0
        \<and> downloaded_size (ptask (step (Worker 0) c)) = 2
        \<and> total_size (ptask c) = 4)
   \<and> (\<exists>c. multipart_download [(0, Some 3)] 0
              [Worker 0, Worker 0, Worker 0, PauseRequest, Worker 0, MainThread, MainThread]
              (four_byte_task, (env example_world)\<lparr>net := steady_net\<rparr>) = Inr c
          \<and> main c = Returned Break \<and> paused (ptask c)
          \<and> downloaded_size (ptask c) = 2 \<and> total_size (ptask c) = 4
          \<and> status (ptask c) = ''downloading''
          \<and> resume 0 (example_world\<lparr>heap := (\<lambda>a. ptask c)\<rparr>)
              = example_world\<lparr>heap := (\<lambda>a. ptask c)\<rparr>)"
proof -
  let ?s = "(env example_world)\<lparr>net := steady_net\<rparr>"
  let ?c = "run [Worker 0, Worker 0] (start_pool [(0, Some 3)] 0 (four_byte_task, ?s))"
  have ran: "multipart_download [(0, Some 3)] 0 [Worker 0, Worker 0] (four_byte_task, ?s)
               = Inr ?c"
    by (simp add: multipart_download_def four_byte_task_def example_task_def init_task_def)
  have state: "length (jobs ?c) = 1" "futures ?c ! 0 = Writing [1, 2] [Data [3, 4]]"
    "faults (disk (psys ?c)) Write (job_sink (jobs ?c ! 0)) = None"
    "downloaded_size (ptask ?c) = 0" "total_size four_byte_task = 4"
    by (simp_all add: pool_defs submitted_single temp_files_single example_world_def
          steady_net_def example_disk_def four_byte_task_def example_task_def init_task_def)
  note facts = downloaded_size_monotone_not_bounded [OF ran, of _ 0 "[1, 2]" "[Data [3, 4]]"]
  from facts state have written: "downloaded_size (ptask (step (Worker 0) ?c)) = 2"
    by simp
  from facts state have size: "total_size (ptask ?c) = 4"
    by simp
  from ran state written size
  have first: "\<exists>c. multipart_download [(0, Some 3)] 0 [Worker 0, Worker 0]
           (four_byte_task, ?s) = Inr c
        \<and> futures c ! 0 = Writing [1, 2] [Data [3, 4]]
        \<and> downloaded_size (ptask c) = 0
        \<and> downloaded_size (ptask (step (Worker 0) c)) = 2
        \<and> total_size (ptask c) = 4"
    by blast
  let ?sched = "[Worker 0, Worker 0, Worker 0, PauseRequest, Worker 0, MainThread, MainThread]"
  let ?c' = "run ?sched (start_pool [(0, Some 3)] 0 (four_byte_task, ?s))"
  let ?w = "example_world\<lparr>heap := (\<lambda>a. ptask ?c')\<rparr>"
  have ran': "multipart_download [(0, Some 3)] 0 ?sched (four_byte_task, ?s) = Inr ?c'"
    by (simp add: multipart_download_def four_byte_task_def example_task_def init_task_def)
  have state': "main ?c' = Returned Break" "paused (ptask ?c')"
    "downloaded_size (ptask ?c') = 2" "status (ptask ?c') = ''downloading''"
    "status four_byte_task \<noteq> ''paused''"
    by (simp_all add: pool_defs submitted_single temp_files_single example_world_def
          steady_net_def example_disk_def four_byte_task_def example_task_def init_task_def)
  have here: "heap ?w 0 = ptask ?c'"
    by simp
  note facts' = downloaded_size_monotone_not_bounded [OF ran', of _ _ _ _ ?w 0]
  from facts' state' here have noop: "resume 0 ?w = ?w"
    by blast
  from facts' state(5) have size': "total_size (ptask ?c') = 4"
    by simp
  from ran' state' noop size'
  have second: "\<exists>c. multipart_download [(0, Some 3)] 0 ?sched (four_byte_task, ?s) = Inr c
          \<and> main c = Returned Break \<and> paused (ptask c)
          \<and> downloaded_size (ptask c) = 2 \<and> total_size (ptask c) = 4
          \<and> status (ptask c) = ''downloading''
          \<and> resume 0 (example_world\<lparr>heap := (\<lambda>a. ptask c)\<rparr>)
              = example_world\<lparr>heap := (\<lambda>a. ptask c)\<rparr>"
    by blast
  from first second show ?thesis by blast
qed

section \<open>Properties of pausing\<close>













end
